theory Spec2Isabelle
  imports Main
begin

section \<open>Python values and the inspected object graph\<close>

text \<open>
  A Python value is a reference to an object. \<open>None\<close> is a singleton that is no part of
  the inspected graph; every other object lives in a heap indexed by its address.
  \<open>py_id\<close> is Python's \<open>id()\<close>: injective, and \<open>id(None)\<close> differs from the
  identity of every heap object.
\<close>

datatype pyval = PyNone | Ref nat

fun py_id :: "pyval \<Rightarrow> nat" where
  "py_id PyNone = 0"
| "py_id (Ref r) = Suc r"

text \<open>
  The members of \<open>WHITELIST_USE_SIMPLE_TYPE\<close>. \<open>SOther\<close> stands for float, Decimal,
  Money, complex, re.Pattern, re.Match and date: the code only observes their \<open>str()\<close>
  and their truth value, which the constructor carries.
\<close>

datatype scalar = SStr string | SInt int | SBool bool | SOther string bool

text \<open>What \<open>getattr(obj, name)\<close> does for one name of \<open>dir(obj)\<close>.\<close>

datatype getattr_outcome = Returns pyval | RaisesAttributeError | Raises string

datatype obj_kind = Instance | BuiltinCallable | TypeObject

text \<open>
  Heap objects, by what the classifier can tell apart:
  \<^item> \<open>Method ps\<close>: a bound method whose signature has the parameter names \<open>ps\<close>;
  \<^item> \<open>Partial fn ps args kws\<close>: a \<open>functools.partial\<close> over a callable named \<open>fn\<close> with
    signature parameters \<open>ps\<close>, positional arguments \<open>args\<close> and keywords \<open>kws\<close>;
  \<^item> \<open>Dict\<close>: the items in iteration order (keys are strings, as \<open>_add_child\<close> declares);
  \<^item> \<open>List\<close>; \<open>QuerySet\<close>: the rows the query yields, in order;
  \<^item> \<open>Object k attrs\<close>: anything else: \<open>dir(obj)\<close> in order, each name with the
    outcome of reading it; \<open>k\<close> tells builtins and classes from instances.

  Every callable has a signature, and reading an attribute twice gives the same object.
\<close>

datatype pyobj =
    Scalar scalar
  | Method "string list"
  | Partial string "string list" "pyval list" "(string \<times> pyval) list"
  | Dict "(string \<times> pyval) list"
  | List "pyval list"
  | QuerySet "pyval list"
  | Object obj_kind "(string \<times> getattr_outcome) list"

type_synonym heap = "nat \<Rightarrow> pyobj"

text \<open>
  Exceptions: a \<open>ValueError\<close> that the inspection code or a QuerySet slice raises
  itself, with its message, and any exception other than \<open>AttributeError\<close> that the
  getter of an inspected attribute raises, with its message.
\<close>

datatype error = ValueError string | GetterRaised string

subsection \<open>Strings\<close>

definition digit_chr :: "nat \<Rightarrow> char" where
  "digit_chr n = ''0123456789'' ! (n mod 10)"

fun str_nat :: "nat \<Rightarrow> string" where
  "str_nat n = (if n < 10 then [digit_chr n] else str_nat (n div 10) @ [digit_chr n])"

definition str_int :: "int \<Rightarrow> string" where
  "str_int i = (if i < 0 then CHR ''-'' # str_nat (nat (- i)) else str_nat (nat i))"

fun str_scalar :: "scalar \<Rightarrow> string" where
  "str_scalar (SStr s) = s"
| "str_scalar (SInt i) = str_int i"
| "str_scalar (SBool b) = (if b then ''True'' else ''False'')"
| "str_scalar (SOther s t) = s"

text \<open>\<open>isinstance(obj, WHITELIST_USE_SIMPLE_TYPE)\<close>; \<open>None\<close> is no instance of them.\<close>

fun isinstance_simple :: "heap \<Rightarrow> pyval \<Rightarrow> bool" where
  "isinstance_simple h PyNone = False"
| "isinstance_simple h (Ref r) = (case h r of Scalar s \<Rightarrow> True | _ \<Rightarrow> False)"

text \<open>\<open>str(obj)\<close>, which the code calls on simple values and on \<open>None\<close> only.\<close>

fun py_str :: "heap \<Rightarrow> pyval \<Rightarrow> string" where
  "py_str h PyNone = ''None''"
| "py_str h (Ref r) = (case h r of Scalar s \<Rightarrow> str_scalar s | _ \<Rightarrow> ''<object>'')"

text \<open>\<open>str.lower()\<close> on one character (code points up to 255).\<close>

definition lower_chr :: "char \<Rightarrow> char" where
  "lower_chr c =
     (let n = of_char c :: nat
      in if (65 \<le> n \<and> n \<le> 90) \<or> (192 \<le> n \<and> n \<le> 222 \<and> n \<noteq> 215)
         then char_of (n + 32) else c)"

definition py_lower :: "string \<Rightarrow> string" where
  "py_lower s = map lower_chr s"

text \<open>\<open>sub in s\<close> on strings.\<close>

fun starts_with :: "string \<Rightarrow> string \<Rightarrow> bool" where
  "starts_with [] s = True"
| "starts_with (c # cs) [] = False"
| "starts_with (c # cs) (d # ds) = (c = d \<and> starts_with cs ds)"

fun py_in :: "string \<Rightarrow> string \<Rightarrow> bool" where
  "py_in sub [] = (sub = [])"
| "py_in sub (d # ds) = (starts_with sub (d # ds) \<or> py_in sub ds)"

text \<open>\<open>sep.join(xs)\<close>.\<close>

fun py_join :: "string \<Rightarrow> string list \<Rightarrow> string" where
  "py_join sep [] = []"
| "py_join sep [x] = x"
| "py_join sep (x # y # ys) = x @ sep @ py_join sep (y # ys)"

text \<open>The f-string that puts a text between two double quotes.\<close>

definition quoted :: "string \<Rightarrow> string" where
  "quoted s = [CHR 0x22] @ s @ [CHR 0x22]"

section \<open>Inspection nodes\<close>

text \<open>
  One constructor per subclass of \<open>InspectBase\<close>, carrying the fields the subclass adds:
  \<open>_value\<close>; \<open>_parameters\<close>; \<open>_parameters\<close> and \<open>_parent_name\<close>; \<open>_total_items\<close>.
  \<open>_value\<close> is a Python object (the code tests its type), and a parameter's
  \<open>'value'\<close> may be \<open>None\<close> as far as \<open>get_format_value\<close> knows.
\<close>

datatype inspect_class =
    InspectSimpleType scalar
  | InspectMethod "string list"
  | InspectPartial "(string \<times> string option) list" string
  | InspectDuplicate
  | InspectDict nat
  | InspectList nat
  | InspectQuerySet nat
  | InspectClass

text \<open>The fields of \<open>InspectBase\<close>: \<open>_name\<close>, \<open>_obj\<close>, \<open>_depth\<close>, \<open>_children\<close>.\<close>

datatype node =
  Node (node_class: inspect_class) (node_name: string) (node_obj: pyval)
       (node_depth: int) (node_children: "node list")

fun get_total_children :: "node \<Rightarrow> nat option" where
  "get_total_children (Node (InspectDict total_items) _ _ _ _) = Some total_items"
| "get_total_children (Node (InspectList total_items) _ _ _ _) = Some total_items"
| "get_total_children (Node (InspectQuerySet total_items) _ _ _ _) = Some total_items"
| "get_total_children (Node InspectClass _ _ _ children) = Some (length children)"
| "get_total_children (Node _ _ _ _ _) = None"

definition get_children :: "node \<Rightarrow> node list option" where
  "get_children n =
     (if get_total_children n \<noteq> None then Some (node_children n) else None)"

fun get_format_title :: "node \<Rightarrow> string" where
  "get_format_title (Node (InspectPartial parameters parent_name) name _ _ _) =
     name @ ''(...) -> '' @ parent_name"
| "get_format_title (Node _ name _ _ _) = name"

definition get_format_id :: "node \<Rightarrow> nat" where
  "get_format_id n = py_id (node_obj n)"

fun get_format_link_to :: "node \<Rightarrow> nat option" where
  "get_format_link_to (Node InspectDuplicate _ obj _ _) = Some (py_id obj)"
| "get_format_link_to (Node _ _ _ _ _) = None"

fun format_parameter :: "string \<times> string option \<Rightarrow> string" where
  "format_parameter (name, None) = name"
| "format_parameter (name, Some v) = name @ ''='' @ v"

fun get_format_value :: "node \<Rightarrow> string" where
  "get_format_value (Node (InspectSimpleType v) name _ _ _) =
     (case v of
        SStr s \<Rightarrow>
          (if py_in ''password'' (py_lower name)
           then quoted (replicate (length s) (CHR ''*''))
           else quoted s)
      | _ \<Rightarrow> str_scalar v)"
| "get_format_value (Node (InspectMethod parameters) _ _ _ _) = py_join '', '' parameters"
| "get_format_value (Node (InspectPartial parameters parent_name) _ _ _ _) =
     py_join '', '' (map format_parameter parameters)"
| "get_format_value (Node InspectDuplicate _ _ _ _) = ''(duplicated)''"
| "get_format_value (Node _ _ _ _ _) = []"

fun get_format_prefix :: "node \<Rightarrow> string" where
  "get_format_prefix (Node (InspectSimpleType _) _ _ _ _) = ''=''"
| "get_format_prefix (Node (InspectMethod _) _ _ _ _) = ''(''"
| "get_format_prefix (Node (InspectPartial _ _) _ _ _ _) = ''(''"
| "get_format_prefix (Node InspectDuplicate _ _ _ _) = []"
| "get_format_prefix (Node (InspectDict _) _ _ _ _) = ''{''"
| "get_format_prefix (Node (InspectList _) _ _ _ _) = ''[''"
| "get_format_prefix (Node (InspectQuerySet _) _ _ _ _) = ''[''"
| "get_format_prefix (Node InspectClass _ _ _ _) = ''{''"

fun get_format_postfix :: "node \<Rightarrow> string" where
  "get_format_postfix (Node (InspectSimpleType _) _ _ _ _) = []"
| "get_format_postfix (Node (InspectMethod _) _ _ _ _) = '')''"
| "get_format_postfix (Node (InspectPartial _ _) _ _ _ _) = '')''"
| "get_format_postfix (Node InspectDuplicate _ _ _ _) = []"
| "get_format_postfix (Node (InspectDict _) _ _ _ _) = ''}''"
| "get_format_postfix (Node (InspectList _) _ _ _ _) = '']''"
| "get_format_postfix (Node (InspectQuerySet _) _ _ _ _) = '']''"
| "get_format_postfix (Node InspectClass _ _ _ _) = ''}''"

text \<open>\<open>inspection.__class__.__name__\<close>, the \<open>inspect_type\<close> of the context.\<close>

fun inspect_type :: "node \<Rightarrow> string" where
  "inspect_type (Node (InspectSimpleType _) _ _ _ _) = ''InspectSimpleType''"
| "inspect_type (Node (InspectMethod _) _ _ _ _) = ''InspectMethod''"
| "inspect_type (Node (InspectPartial _ _) _ _ _ _) = ''InspectPartial''"
| "inspect_type (Node InspectDuplicate _ _ _ _) = ''InspectDuplicate''"
| "inspect_type (Node (InspectDict _) _ _ _ _) = ''InspectDict''"
| "inspect_type (Node (InspectList _) _ _ _ _) = ''InspectList''"
| "inspect_type (Node (InspectQuerySet _) _ _ _ _) = ''InspectQuerySet''"
| "inspect_type (Node InspectClass _ _ _ _) = ''InspectClass''"

section \<open>The manager\<close>

text \<open>\<open>_max_items\<close> and \<open>_processed\<close>; the latter is the only state the build changes.\<close>

record manager =
  max_items :: int
  processed :: "nat \<rightharpoonup> bool"

definition get_max_items :: "manager \<Rightarrow> int" where
  "get_max_items m = max_items m"

definition been_seen_before :: "heap \<Rightarrow> manager \<Rightarrow> pyval \<Rightarrow> bool \<times> manager" where
  "been_seen_before h m obj =
     (if isinstance_simple h obj \<or> obj = PyNone then (False, m)
      else let obj_id = py_id obj
           in if processed m obj_id \<noteq> None then (True, m)
              else (False, m\<lparr>processed := (processed m)(obj_id \<mapsto> True)\<rparr>))"

section \<open>Reflection helpers of the class inspector\<close>

text \<open>The truth value of an object, as \<open>if value:\<close> reads it.\<close>

fun py_truthy :: "heap \<Rightarrow> pyval \<Rightarrow> bool" where
  "py_truthy h PyNone = False"
| "py_truthy h (Ref r) =
     (case h r of
        Scalar (SStr s) \<Rightarrow> s \<noteq> []
      | Scalar (SInt i) \<Rightarrow> i \<noteq> 0
      | Scalar (SBool b) \<Rightarrow> b
      | Scalar (SOther s t) \<Rightarrow> t
      | Dict items \<Rightarrow> items \<noteq> []
      | List items \<Rightarrow> items \<noteq> []
      | QuerySet rows \<Rightarrow> rows \<noteq> []
      | _ \<Rightarrow> True)"

text \<open>
  \<open>getattr(obj, name, default)\<close>: the default replaces an \<open>AttributeError\<close> only; any
  other exception of the getter leaves the call.
\<close>

fun getattr_default :: "getattr_outcome \<Rightarrow> pyval \<Rightarrow> error + pyval" where
  "getattr_default (Returns v) dflt = Inr v"
| "getattr_default RaisesAttributeError dflt = Inr dflt"
| "getattr_default (Raises msg) dflt = Inl (GetterRaised msg)"

text \<open>\<open>inspect.isbuiltin(attr_value) or isinstance(attr_value, type)\<close>.\<close>

fun isbuiltin_or_type :: "heap \<Rightarrow> pyval \<Rightarrow> bool" where
  "isbuiltin_or_type h PyNone = False"
| "isbuiltin_or_type h (Ref r) =
     (case h r of Object k attrs \<Rightarrow> k = BuiltinCallable \<or> k = TypeObject | _ \<Rightarrow> False)"

text \<open>
  \<open>getattr(attr_value, 'do_not_call_in_templates', False)\<close>, read as a condition. Only
  objects with attributes of their own can carry the marker here.
\<close>

fun do_not_call_in_templates :: "heap \<Rightarrow> pyval \<Rightarrow> error + bool" where
  "do_not_call_in_templates h PyNone = Inr False"
| "do_not_call_in_templates h (Ref r) =
     (case h r of
        Object k attrs \<Rightarrow>
          (case map_of attrs ''do_not_call_in_templates'' of
             None \<Rightarrow> Inr False
           | Some (Returns v) \<Rightarrow> Inr (py_truthy h v)
           | Some RaisesAttributeError \<Rightarrow> Inr False
           | Some (Raises msg) \<Rightarrow> Inl (GetterRaised msg))
      | _ \<Rightarrow> Inr False)"

text \<open>\<open>obj.all()[:n]\<close>: a QuerySet refuses a negative bound.\<close>

definition queryset_slice :: "pyval list \<Rightarrow> int \<Rightarrow> error + pyval list" where
  "queryset_slice rows n =
     (if n < 0 then Inl (ValueError ''Negative indexing is not supported.'')
      else Inr (take (nat n) rows))"

text \<open>
  The loop of \<open>InspectPartial.__init__\<close> over \<open>enumerate(sig.parameters.values())\<close>:
  the value starts as \<open>None\<close>, is replaced by a positional or keyword argument of the
  partial, and is then turned into its \<open>str()\<close> or into \<open>(complex)\<close>.
\<close>

fun partial_parameters ::
  "heap \<Rightarrow> pyval list \<Rightarrow> (string \<times> pyval) list \<Rightarrow> (nat \<times> string) list
    \<Rightarrow> (string \<times> string option) list" where
  "partial_parameters h bound_args bound_kwargs [] = []"
| "partial_parameters h bound_args bound_kwargs ((i, param_name) # rest) =
     (let v = (if i < length bound_args then bound_args ! i
               else (case map_of bound_kwargs param_name of Some w \<Rightarrow> w | None \<Rightarrow> PyNone));
          v' = (if isinstance_simple h v then Some (py_str h v) else Some ''(complex)'')
      in (param_name, v') # partial_parameters h bound_args bound_kwargs rest)"

section \<open>The recursive tree build\<close>

definition depth_exceeded :: error where
  "depth_exceeded = ValueError ''Internal error in InspectManager: Depth exceeded''"

text \<open>
  The calls of the build: \<open>inspect_factory\<close>, \<open>_add_child\<close> and the four loops, each with
  its arguments. A call descends in \<open>build_order\<close>: the depth budget comes first
  (\<open>inspect_factory\<close> hands \<open>depth - 1\<close> to a loop, and only when \<open>depth\<close> is
  positive), then the entries a loop has still to visit.
\<close>

type_synonym loop_call = "heap \<times> manager \<times> int \<times> (nat \<times> pyval) list \<times> node list"

type_synonym build_call =
  "((heap \<times> manager \<times> string \<times> pyval \<times> int)
    + ((heap \<times> manager \<times> int \<times> node list \<times> string \<times> pyval)
       + (heap \<times> manager \<times> int \<times> (string \<times> pyval) list \<times> node list)))
   + (loop_call
      + (loop_call
         + (heap \<times> manager \<times> int \<times> (string \<times> getattr_outcome) list \<times> node list)))"

definition build_order :: "(build_call \<times> build_call) set" where
  "build_order = measures
     [\<lambda>x. case x of
         Inl (Inl (h, m, name, obj, depth)) \<Rightarrow> 2 * nat depth
       | Inl (Inr (Inl (h, m, depth, rest))) \<Rightarrow> 2 * nat depth + 1
       | Inl (Inr (Inr (h, m, depth, rest))) \<Rightarrow> 2 * nat depth + 1
       | Inr (Inl (h, m, depth, rest)) \<Rightarrow> 2 * nat depth + 1
       | Inr (Inr (Inl (h, m, depth, rest))) \<Rightarrow> 2 * nat depth + 1
       | Inr (Inr (Inr (h, m, depth, rest))) \<Rightarrow> 2 * nat depth + 1,
      \<lambda>x. case x of
         Inl (Inl (h, m, name, obj, depth)) \<Rightarrow> 0
       | Inl (Inr (Inl (h, m, depth, rest))) \<Rightarrow> 0
       | Inl (Inr (Inr (h, m, depth, items, children))) \<Rightarrow> Suc (length items)
       | Inr (Inl (h, m, depth, items, children)) \<Rightarrow> Suc (length items)
       | Inr (Inr (Inl (h, m, depth, items, children))) \<Rightarrow> Suc (length items)
       | Inr (Inr (Inr (h, m, depth, items, children))) \<Rightarrow> Suc (length items)]"

text \<open>
  \<open>inspect_factory\<close> with the constructors it dispatches to, \<open>_add_child\<close>, and the
  \<open>for\<close> loops of \<open>InspectDict\<close>, \<open>InspectList\<close>, \<open>InspectQuerySet\<close> and
  \<open>InspectClass\<close>. Every function takes the manager and returns it updated; an
  exception is \<open>Inl\<close> and ends the build. A loop takes the entries still to visit and
  the \<open>_children\<close> collected so far; \<open>depth\<close> in a loop is the \<open>depth\<close> argument of
  the constructor, which is \<open>self._depth\<close>. The first two branches of the case on the
  object repeat the test before it and are never taken.
\<close>

function
  inspect_factory :: "heap \<Rightarrow> manager \<Rightarrow> string \<Rightarrow> pyval \<Rightarrow> int \<Rightarrow> error + node \<times> manager"
and add_child ::
  "heap \<Rightarrow> manager \<Rightarrow> int \<Rightarrow> node list \<Rightarrow> string \<Rightarrow> pyval \<Rightarrow> error + node list \<times> manager"
and dict_loop ::
  "heap \<Rightarrow> manager \<Rightarrow> int \<Rightarrow> (string \<times> pyval) list \<Rightarrow> node list
    \<Rightarrow> error + node list \<times> manager"
and list_loop ::
  "heap \<Rightarrow> manager \<Rightarrow> int \<Rightarrow> (nat \<times> pyval) list \<Rightarrow> node list
    \<Rightarrow> error + node list \<times> manager"
and queryset_loop ::
  "heap \<Rightarrow> manager \<Rightarrow> int \<Rightarrow> (nat \<times> pyval) list \<Rightarrow> node list
    \<Rightarrow> error + node list \<times> manager"
and class_loop ::
  "heap \<Rightarrow> manager \<Rightarrow> int \<Rightarrow> (string \<times> getattr_outcome) list \<Rightarrow> node list
    \<Rightarrow> error + node list \<times> manager"
where
  "inspect_factory h m name obj depth =
     (if depth \<le> 0 then Inl depth_exceeded
      else if isinstance_simple h obj \<or> obj = PyNone
      then Inr (Node (InspectSimpleType (SStr (py_str h obj))) name obj (depth - 1) [], m)
      else (case obj of
          PyNone \<Rightarrow> Inr (Node (InspectSimpleType (SStr (py_str h obj))) name obj (depth - 1) [], m)
        | Ref r \<Rightarrow>
          (case h r of
             Scalar s \<Rightarrow>
               Inr (Node (InspectSimpleType (SStr (py_str h obj))) name obj (depth - 1) [], m)
           | Method parameters \<Rightarrow>
               Inr (Node (InspectMethod parameters) name obj (depth - 1) [], m)
           | Partial parent_name sig args keywords \<Rightarrow>
               Inr (Node (InspectPartial
                            (partial_parameters h args keywords (enumerate 0 sig)) parent_name)
                      name obj (depth - 1) [], m)
           | Dict items \<Rightarrow>
               (case dict_loop h m (depth - 1) items [] of
                  Inl e \<Rightarrow> Inl e
                | Inr (children, m') \<Rightarrow>
                    Inr (Node (InspectDict (length items)) name obj (depth - 1) children, m'))
           | List items \<Rightarrow>
               (case list_loop h m (depth - 1) (enumerate 0 items) [] of
                  Inl e \<Rightarrow> Inl e
                | Inr (children, m') \<Rightarrow>
                    Inr (Node (InspectList (length items)) name obj (depth - 1) children, m'))
           | QuerySet rows \<Rightarrow>
               (let total_items = length rows
                in if total_items > 0 \<and> depth - 1 > 0
                   then (case queryset_slice rows (get_max_items m) of
                           Inl e \<Rightarrow> Inl e
                         | Inr query_items \<Rightarrow>
                             (case queryset_loop h m (depth - 1) (enumerate 0 query_items) [] of
                                Inl e \<Rightarrow> Inl e
                              | Inr (children, m') \<Rightarrow>
                                  Inr (Node (InspectQuerySet total_items) name obj (depth - 1)
                                         children, m')))
                   else Inr (Node (InspectQuerySet total_items) name obj (depth - 1) [], m))
           | Object k attrs \<Rightarrow>
               (case class_loop h m (depth - 1) attrs [] of
                  Inl e \<Rightarrow> Inl e
                | Inr (children, m') \<Rightarrow>
                    Inr (Node InspectClass name obj (depth - 1) children, m')))))"
| "add_child h m depth children name v =
     (let (seen, m') = been_seen_before h m v
      in if seen then Inr (children @ [Node InspectDuplicate name PyNone depth []], m')
         else (case inspect_factory h m' name v depth of
                 Inl e \<Rightarrow> Inl e
               | Inr (child, m'') \<Rightarrow> Inr (children @ [child], m'')))"
| "dict_loop h m depth [] children = Inr (children, m)"
| "dict_loop h m depth ((key, v) # rest) children =
     (case (if depth > 0 then add_child h m depth children key v else Inr (children, m)) of
        Inl e \<Rightarrow> Inl e
      | Inr (children', m') \<Rightarrow>
          if int (length children') \<ge> get_max_items m' then Inr (children', m')
          else dict_loop h m' depth rest children')"
| "list_loop h m depth [] children = Inr (children, m)"
| "list_loop h m depth ((index, item) # rest) children =
     (case (if depth > 0 then add_child h m depth children (str_nat index) item
            else Inr (children, m)) of
        Inl e \<Rightarrow> Inl e
      | Inr (children', m') \<Rightarrow>
          if int index \<ge> get_max_items m' then Inr (children', m')
          else list_loop h m' depth rest children')"
| "queryset_loop h m depth [] children = Inr (children, m)"
| "queryset_loop h m depth ((index, tree_item) # rest) children =
     (case add_child h m depth children (str_nat index) tree_item of
        Inl e \<Rightarrow> Inl e
      | Inr (children', m') \<Rightarrow> queryset_loop h m' depth rest children')"
| "class_loop h m depth [] children = Inr (children, m)"
| "class_loop h m depth ((attr_name, outcome) # rest) children =
     (if starts_with ''_'' attr_name then class_loop h m depth rest children
      else (case getattr_default outcome PyNone of
              Inl e \<Rightarrow> Inl e
            | Inr attr_value \<Rightarrow>
                if isbuiltin_or_type h attr_value then class_loop h m depth rest children
                else (case do_not_call_in_templates h attr_value of
                        Inl e \<Rightarrow> Inl e
                      | Inr flag \<Rightarrow>
                          if flag then class_loop h m depth rest children
                          else if depth > 0
                          then (case add_child h m depth children attr_name attr_value of
                                  Inl e \<Rightarrow> Inl e
                                | Inr (children', m') \<Rightarrow>
                                    class_loop h m' depth rest children')
                          else class_loop h m depth rest children)))"
  by pat_completeness auto

termination
  by (relation build_order) (auto simp: build_order_def)

declare inspect_factory.simps [simp del] add_child.simps [simp del]

text \<open>
  \<open>InspectionManager.__init__\<close>: a fresh \<open>_processed\<close>, and \<open>_base\<close> built with
  \<open>max_depth + 1\<close>. The result is \<open>_base\<close> with the manager as the build leaves it.
\<close>

definition InspectionManager ::
  "heap \<Rightarrow> string \<Rightarrow> pyval \<Rightarrow> int \<Rightarrow> int \<Rightarrow> error + node \<times> manager" where
  "InspectionManager h name obj max_depth max_items_arg =
     inspect_factory h \<lparr>max_items = max_items_arg, processed = Map.empty\<rparr> name obj
       (max_depth + 1)"

section \<open>The size of an inspection tree\<close>

text \<open>The number of levels of a tree: a node without children has one.\<close>

fun node_height :: "node \<Rightarrow> nat" where
  "node_height (Node c name obj d cs) = Suc (fold max (map node_height cs) 0)"

fun duplicates_childless :: "node \<Rightarrow> bool" where
  "duplicates_childless (Node c name obj d cs) =
     ((c = InspectDuplicate \<longrightarrow> cs = []) \<and> (\<forall>ch \<in> set cs. duplicates_childless ch))"

definition within_budget :: "int \<Rightarrow> node \<Rightarrow> bool" where
  "within_budget depth n = (node_height n \<le> nat depth \<and> duplicates_childless n)"

section \<open>Example object graphs\<close>

text \<open>A manager as \<open>InspectionManager.__init__\<close> sets it up, with the default \<open>max_items\<close>.\<close>

definition manager0 :: manager where
  "manager0 = \<lparr>max_items = 5, processed = Map.empty\<rparr>"


definition heap_secret :: heap where
  "heap_secret = (\<lambda>r. Scalar (SStr ''hunter2''))"

text \<open>\<open>x = {}; x["self"] = x\<close>, with \<open>x\<close> at address 0.\<close>

definition heap_self :: heap where
  "heap_self = (\<lambda>r. if r = 0 then Dict [(''self'', Ref 0)] else Scalar (SInt 0))"

text \<open>\<open>a = {}; b = {"a": a}; a["b"] = b\<close>, with \<open>a\<close> at address 0 and \<open>b\<close> at 1.\<close>

definition heap_pair :: heap where
  "heap_pair = (\<lambda>r. if r = 0 then Dict [(''b'', Ref 1)]
                     else if r = 1 then Dict [(''a'', Ref 0)] else Scalar (SInt 0))"

text \<open>\<open>{"a": 1, "b": {"c": 2, "d": 3}}\<close>, the outer dict at address 0, the inner at 2.\<close>

definition heap_nested :: heap where
  "heap_nested =
     (\<lambda>r. if r = 0 then Dict [(''a'', Ref 1), (''b'', Ref 2)]
          else if r = 2 then Dict [(''c'', Ref 3), (''d'', Ref 4)]
          else if r = 3 then Scalar (SInt 2)
          else if r = 4 then Scalar (SInt 3)
          else Scalar (SInt 1))"

text \<open>
  One container of each kind: a dict, a list, a QuerySet and an instance with one
  attribute, at the addresses 0 to 3; every other address holds the integer \<open>7\<close>.
\<close>

definition heap_containers :: heap where
  "heap_containers =
     (\<lambda>r. if r = 0 then Dict [(''k'', Ref 4)]
          else if r = 1 then List [Ref 4, Ref 5]
          else if r = 2 then QuerySet [Ref 4, Ref 5, Ref 6]
          else if r = 3 then Object Instance [(''size'', Returns (Ref 4))]
          else Scalar (SInt 7))"

text \<open>The list \<open>[1, 2, 3]\<close> and the dict \<open>{"a": 1, "b": 2, "c": 3}\<close>, each at address 0.\<close>

definition heap_list3 :: heap where
  "heap_list3 = (\<lambda>r. if r = 0 then List [Ref 1, Ref 2, Ref 3] else Scalar (SInt (int r)))"

definition heap_dict3 :: heap where
  "heap_dict3 =
     (\<lambda>r. if r = 0 then Dict [(''a'', Ref 1), (''b'', Ref 2), (''c'', Ref 3)]
          else Scalar (SInt (int r)))"

text \<open>\<open>partial(f, 1)\<close> for \<open>def f(a, b)\<close>, at address 0.\<close>

definition heap_partial :: heap where
  "heap_partial =
     (\<lambda>r. if r = 0 then Partial ''f'' [''a'', ''b''] [Ref 1] [] else Scalar (SInt 1))"

text \<open>
  An instance with the attributes \<open>bad\<close> and \<open>good\<close>. Reading \<open>bad\<close> raises an exception
  with the message \<open>boom\<close> (in \<open>heap_raising\<close>) or an \<open>AttributeError\<close> (in
  \<open>heap_attr_error\<close>); \<open>good\<close> is the integer \<open>1\<close>.
\<close>

definition heap_raising :: heap where
  "heap_raising =
     (\<lambda>r. if r = 0
          then Object Instance [(''bad'', Raises ''boom''), (''good'', Returns (Ref 1))]
          else Scalar (SInt 1))"

definition heap_attr_error :: heap where
  "heap_attr_error =
     (\<lambda>r. if r = 0
          then Object Instance [(''bad'', RaisesAttributeError), (''good'', Returns (Ref 1))]
          else Scalar (SInt 1))"

section \<open>Scalars: quoting and masking\<close>

lemma starts_with_append: "starts_with u (u @ ss)"
  by (induction u) auto

lemma py_in_append: "py_in u (ps @ u @ ss)"
proof (induction ps)
  case Nil
  show ?case by (cases "u @ ss") (use starts_with_append[of u ss] in auto)
next
  case (Cons p ps)
  then show ?case by simp
qed

lemma py_in_lower:
  assumes "name = ps @ u @ ss" and "py_lower u = pw"
  shows "py_in pw (py_lower name)"
  using assms py_in_append[of "py_lower u" "py_lower ps" "py_lower ss"]
  by (simp add: py_lower_def)

lemma inspect_factory_simple:
  assumes "isinstance_simple h obj \<or> obj = PyNone" and "0 < depth"
  shows "inspect_factory h m name obj depth =
           Inr (Node (InspectSimpleType (SStr (py_str h obj))) name obj (depth - 1) [], m)"
  using assms by (simp add: inspect_factory.simps)

lemma lower_PassWord: "py_lower ''PassWord'' = ''password''"
  by code_simp



text \<open>
  C6. A string value under a field name that contains \<open>password\<close> in any letter case
  (some part \<open>u\<close> of the name lower-cases to \<open>password\<close>) is classified as a simple
  type, and its value text is a double quote, one \<open>*\<close> for each character of the true
  string, and a double quote: it is made of the length of the value alone, and no
  character other than the quote and the star occurs in it.
\<close>

theorem password_value_masked:
  assumes "h r = Scalar (SStr s)" and "0 < depth"
    and "name = ps @ u @ ss" and "py_lower u = ''password''"
  shows "\<exists>node. inspect_factory h m name (Ref r) depth = Inr (node, m)
           \<and> inspect_type node = ''InspectSimpleType''
           \<and> get_format_value node = quoted (replicate (length s) (CHR ''*''))
           \<and> length (get_format_value node) = length s + 2
           \<and> set (get_format_value node) \<subseteq> {CHR 0x22, CHR ''*''}"
proof -
  have simple: "isinstance_simple h (Ref r) \<or> Ref r = PyNone"
    using assms(1) by simp
  have str: "py_str h (Ref r) = s"
    using assms(1) by simp
  have pw: "py_in ''password'' (py_lower name)"
    using py_in_lower[OF assms(3) assms(4)] .
  let ?node = "Node (InspectSimpleType (SStr s)) name (Ref r) (depth - 1) []"
  have build: "inspect_factory h m name (Ref r) depth = Inr (?node, m)"
    using inspect_factory_simple[OF simple assms(2), of m name] str by simp
  have val: "get_format_value ?node = quoted (replicate (length s) (CHR ''*''))"
    using pw by simp
  have "length (get_format_value ?node) = length s + 2"
    unfolding val by (simp add: quoted_def)
  moreover have "set (get_format_value ?node) \<subseteq> {CHR 0x22, CHR ''*''}"
    unfolding val by (auto simp: quoted_def)
  ultimately show ?thesis
    using build val by (intro exI[of _ ?node]) simp
qed

theorem password_value_masked_witness:
  "heap_secret 0 = Scalar (SStr ''hunter2'') \<and> (0::int) < 1
   \<and> ''userPassWord1'' = ''user'' @ ''PassWord'' @ ''1''
   \<and> py_lower ''PassWord'' = ''password''
   \<and> (\<exists>node. inspect_factory heap_secret manager0 ''userPassWord1'' (Ref 0) 1
                 = Inr (node, manager0)
           \<and> inspect_type node = ''InspectSimpleType''
           \<and> get_format_value node = quoted ''*******''
           \<and> length (get_format_value node) = length ''hunter2'' + 2
           \<and> set (get_format_value node) \<subseteq> {CHR 0x22, CHR ''*''})"
proof -
  have h: "heap_secret 0 = Scalar (SStr ''hunter2'')"
    by (simp add: heap_secret_def)
  have n: "''userPassWord1'' = ''user'' @ ''PassWord'' @ ''1''"
    by simp
  have r: "replicate (length ''hunter2'') (CHR ''*'') = ''*******''"
    by (simp add: replicate_Suc[symmetric] del: replicate_Suc replicate.simps) code_simp
  show ?thesis
    using password_value_masked[of heap_secret 0 "''hunter2''" 1 "''userPassWord1''"
        "''user''" "''PassWord''" "''1''" manager0] h lower_PassWord r
    by (simp add: quoted_def)
qed




section \<open>The depth budget\<close>

lemmas build_induct =
  inspect_factory_add_child_dict_loop_list_loop_queryset_loop_class_loop.induct

lemma slice_not_depth: "queryset_slice rows n \<noteq> Inl depth_exceeded"
  by (simp add: queryset_slice_def depth_exceeded_def)

lemma getattr_not_depth: "getattr_default outcome d \<noteq> Inl depth_exceeded"
  by (cases outcome) (simp_all add: depth_exceeded_def)

lemma marker_not_depth: "do_not_call_in_templates h v \<noteq> Inl depth_exceeded"
  by (cases v) (auto simp: depth_exceeded_def split: pyobj.splits option.splits getattr_outcome.splits)

lemma no_depth_error:
  shows "0 < depth \<Longrightarrow> inspect_factory h m name obj depth \<noteq> Inl depth_exceeded"
    and "0 < depth \<Longrightarrow> add_child h m depth children name v \<noteq> Inl depth_exceeded"
    and "dict_loop h m depth items children \<noteq> Inl depth_exceeded"
    and "list_loop h m depth eitems children \<noteq> Inl depth_exceeded"
    and "0 < depth \<Longrightarrow> queryset_loop h m depth eitems children \<noteq> Inl depth_exceeded"
    and "class_loop h m depth attrs children \<noteq> Inl depth_exceeded"
proof (induct h m name obj depth and h m depth children name v
          and h m depth items children and h m depth eitems children
          and h m depth eitems children and h m depth attrs children
       rule: build_induct)
  case (1 h m name obj depth)
  then show ?case
    using slice_not_depth
    by (auto simp: inspect_factory.simps Let_def split: pyval.splits pyobj.splits sum.splits if_splits)
next
  case (2 h m depth children name v)
  obtain seen m' where s: "been_seen_before h m v = (seen, m')"
    by (cases "been_seen_before h m v")
  show ?case
  proof (cases seen)
    case True
    with s show ?thesis by (simp add: add_child.simps)
  next
    case False
    from 2(1)[OF refl s[symmetric] False 2(2)] s False
    show ?thesis by (auto simp: add_child.simps split: sum.splits)
  qed
next
  case (4 h m depth key v rest children)
  let ?r = "if 0 < depth then add_child h m depth children key v else Inr (children, m)"
  show ?case
  proof (cases ?r)
    case (Inl e)
    have "e \<noteq> depth_exceeded"
      using Inl 4(1) by (cases "0 < depth") auto
    with Inl show ?thesis by simp
  next
    case (Inr b)
    obtain x y where b: "b = (x, y)" by (cases b)
    show ?thesis
    proof (cases "get_max_items y \<le> int (length x)")
      case True
      with Inr b show ?thesis by simp
    next
      case False
      from 4(2)[OF Inr b[symmetric] False] Inr b False show ?thesis by simp
    qed
  qed
next
  case (6 h m depth index item rest children)
  let ?r = "if 0 < depth then add_child h m depth children (str_nat index) item
            else Inr (children, m)"
  show ?case
  proof (cases ?r)
    case (Inl e)
    have "e \<noteq> depth_exceeded"
      using Inl 6(1) by (cases "0 < depth") auto
    with Inl show ?thesis by simp
  next
    case (Inr b)
    obtain x y where b: "b = (x, y)" by (cases b)
    show ?thesis
    proof (cases "get_max_items y \<le> int index")
      case True
      with Inr b show ?thesis by simp
    next
      case False
      from 6(2)[OF Inr b[symmetric] False] Inr b False show ?thesis by simp
    qed
  qed
next
  case (8 h m depth index tree_item rest children)
  note pos = \<open>0 < depth\<close>
  show ?case
  proof (cases "add_child h m depth children (str_nat index) tree_item")
    case (Inl e)
    with 8(1) pos have "e \<noteq> depth_exceeded" by auto
    with Inl show ?thesis by simp
  next
    case (Inr b)
    obtain x y where b: "b = (x, y)" by (cases b)
    from 8(2)[OF Inr b[symmetric] pos] Inr b show ?thesis by simp
  qed
next
  case (10 h m depth attr_name outcome rest children)
  show ?case
  proof (cases "starts_with ''_'' attr_name")
    case True
    with 10(1) show ?thesis by simp
  next
    case priv: False
    show ?thesis
    proof (cases "getattr_default outcome PyNone")
      case (Inl e)
      with getattr_not_depth[of outcome PyNone] priv show ?thesis by auto
    next
      case val: (Inr attr_value)
      show ?thesis
      proof (cases "isbuiltin_or_type h attr_value")
        case True
        with 10(2)[OF priv val] priv val show ?thesis by simp
      next
        case nb: False
        show ?thesis
        proof (cases "do_not_call_in_templates h attr_value")
          case (Inl e)
          with marker_not_depth[of h attr_value] priv val nb show ?thesis by auto
        next
          case flag: (Inr flag)
          show ?thesis
          proof (cases flag)
            case True
            with 10(3)[OF priv val nb flag] priv val nb flag show ?thesis by simp
          next
            case nf: False
            show ?thesis
            proof (cases "0 < depth")
              case pos: True
              show ?thesis
              proof (cases "add_child h m depth children attr_name attr_value")
                case (Inl e)
                with 10(4)[OF priv val nb flag nf pos] pos have "e \<noteq> depth_exceeded"
                  by auto
                with Inl priv val nb flag nf pos show ?thesis by simp
              next
                case (Inr b)
                obtain x y where b: "b = (x, y)" by (cases b)
                from 10(5)[OF priv val nb flag nf pos Inr b[symmetric]]
                  Inr b priv val nb flag nf pos
                show ?thesis by simp
              qed
            next
              case False
              with 10(6)[OF priv val nb flag nf] priv val nb flag nf show ?thesis by simp
            qed
          qed
        qed
      qed
    qed
  qed
qed simp_all

text \<open>
  C9. \<open>inspect_factory\<close> raises the internal error \<open>Depth exceeded\<close> exactly when its
  \<open>depth\<close> is zero or negative. A run of \<open>InspectionManager\<close> with \<open>max_depth \<ge> 0\<close>
  (and any \<open>max_items\<close>) never ends in that error: the root is classified with
  \<open>max_depth + 1\<close>, and a child is only classified under a positive depth.
\<close>

theorem depth_error_only_without_budget:
  "(inspect_factory h m name obj depth = Inl depth_exceeded \<longleftrightarrow> depth \<le> 0)
   \<and> (0 \<le> max_depth
        \<longrightarrow> InspectionManager h name obj max_depth max_items_arg \<noteq> Inl depth_exceeded)"
proof (intro conjI impI)
  show "inspect_factory h m name obj depth = Inl depth_exceeded \<longleftrightarrow> depth \<le> 0"
  proof
    assume "inspect_factory h m name obj depth = Inl depth_exceeded"
    then show "depth \<le> 0"
      using no_depth_error(1)[of depth h m name obj] by (cases "depth \<le> 0") auto
  next
    assume "depth \<le> 0"
    then show "inspect_factory h m name obj depth = Inl depth_exceeded"
      by (simp add: inspect_factory.simps)
  qed
next
  assume "0 \<le> max_depth"
  then have "0 < max_depth + 1" by simp
  then show "InspectionManager h name obj max_depth max_items_arg \<noteq> Inl depth_exceeded"
    unfolding InspectionManager_def by (rule no_depth_error(1))
qed

theorem depth_error_only_without_budget_witness:
  "(0::int) \<le> 2
   \<and> InspectionManager heap_self ''x'' (Ref 0) 2 5 \<noteq> Inl depth_exceeded
   \<and> inspect_factory heap_self manager0 ''x'' (Ref 0) 0 = Inl depth_exceeded
   \<and> inspect_factory heap_self manager0 ''x'' (Ref 0) 1 \<noteq> Inl depth_exceeded"
  using depth_error_only_without_budget[of heap_self manager0 "''x''" "Ref 0" 0 2 5]
    depth_error_only_without_budget[of heap_self manager0 "''x''" "Ref 0" 1 2 5]
  by simp

section \<open>Termination\<close>

lemma fold_max_le: "fold max xs a \<le> k \<longleftrightarrow> a \<le> k \<and> (\<forall>x \<in> set xs. x \<le> (k::nat))"
  by (induction xs arbitrary: a) auto

lemma within_budget_leaf:
  "0 < depth \<Longrightarrow> within_budget depth (Node c name obj d [])"
  by (simp add: within_budget_def)

lemma within_budget_node:
  assumes "0 < depth" and "c \<noteq> InspectDuplicate"
    and "\<forall>ch \<in> set cs. within_budget (depth - 1) ch"
  shows "within_budget depth (Node c name obj d cs)"
proof -
  have "fold max (map node_height cs) 0 \<le> nat (depth - 1)"
    using assms(3) by (simp add: fold_max_le within_budget_def)
  then have "node_height (Node c name obj d cs) \<le> nat depth"
    using assms(1) by simp
  then show ?thesis
    using assms(2,3) by (simp add: within_budget_def)
qed

lemma build_within_budget:
  shows "\<forall>n m'. inspect_factory h m name obj depth = Inr (n, m') \<longrightarrow> within_budget depth n"
    and "\<forall>cs' m'. 0 < depth \<longrightarrow> add_child h m depth children name v = Inr (cs', m')
           \<longrightarrow> (\<exists>c. cs' = children @ [c] \<and> within_budget depth c)"
    and "\<forall>cs' m'. dict_loop h m depth items children = Inr (cs', m')
           \<longrightarrow> (\<exists>new. cs' = children @ new \<and> (\<forall>c \<in> set new. within_budget depth c))"
    and "\<forall>cs' m'. list_loop h m depth eitems children = Inr (cs', m')
           \<longrightarrow> (\<exists>new. cs' = children @ new \<and> (\<forall>c \<in> set new. within_budget depth c))"
    and "\<forall>cs' m'. 0 < depth \<longrightarrow> queryset_loop h m depth eitems children = Inr (cs', m')
           \<longrightarrow> (\<exists>new. cs' = children @ new \<and> (\<forall>c \<in> set new. within_budget depth c))"
    and "\<forall>cs' m'. class_loop h m depth attrs children = Inr (cs', m')
           \<longrightarrow> (\<exists>new. cs' = children @ new \<and> (\<forall>c \<in> set new. within_budget depth c))"
proof (induct h m name obj depth and h m depth children name v
          and h m depth items children and h m depth eitems children
          and h m depth eitems children and h m depth attrs children
       rule: build_induct)
  case (1 h m name obj depth)
  show ?case
  proof (intro allI impI)
    fix n m'
    assume r: "inspect_factory h m name obj depth = Inr (n, m')"
    have pos: "0 < depth"
      using r by (cases "depth \<le> 0") (simp_all add: inspect_factory.simps)
    show "within_budget depth n"
    proof (cases "isinstance_simple h obj \<or> obj = PyNone")
      case True
      with r pos show ?thesis
        by (auto simp: inspect_factory.simps within_budget_leaf)
    next
      case ns: False
      then obtain r' where obj: "obj = Ref r'" by (cases obj) auto
      show ?thesis
      proof (cases "h r'")
        case (Scalar s)
        with ns obj show ?thesis by simp
      next
        case (Method ps)
        with r pos ns obj show ?thesis
          by (auto simp: inspect_factory.simps within_budget_leaf)
      next
        case (Partial fn ps args kws)
        with r pos ns obj show ?thesis
          by (auto simp: inspect_factory.simps within_budget_leaf)
      next
        case (Dict items)
        from r pos ns obj Dict obtain cs where
          l: "dict_loop h m (depth - 1) items [] = Inr (cs, m')"
          and n: "n = Node (InspectDict (length items)) name obj (depth - 1) cs"
          by (auto simp: inspect_factory.simps split: sum.splits)
        from 1(1)[OF _ ns obj Dict] pos l have "\<forall>c \<in> set cs. within_budget (depth - 1) c"
          by auto
        with n pos show ?thesis by (simp add: within_budget_node)
      next
        case (List items)
        from r pos ns obj List obtain cs where
          l: "list_loop h m (depth - 1) (enumerate 0 items) [] = Inr (cs, m')"
          and n: "n = Node (InspectList (length items)) name obj (depth - 1) cs"
          by (auto simp: inspect_factory.simps split: sum.splits)
        from 1(2)[OF _ ns obj List] pos l have "\<forall>c \<in> set cs. within_budget (depth - 1) c"
          by auto
        with n pos show ?thesis by (simp add: within_budget_node)
      next
        case (QuerySet rows)
        show ?thesis
        proof (cases "0 < length rows \<and> 0 < depth - 1")
          case True
          with r pos ns obj QuerySet obtain query_items cs where
            q: "queryset_slice rows (get_max_items m) = Inr query_items"
            and l: "queryset_loop h m (depth - 1) (enumerate 0 query_items) [] = Inr (cs, m')"
            and n: "n = Node (InspectQuerySet (length rows)) name obj (depth - 1) cs"
            by (auto simp: inspect_factory.simps split: sum.splits)
          from 1(3)[OF _ ns obj QuerySet refl True q] pos l True
          have "\<forall>c \<in> set cs. within_budget (depth - 1) c"
            by auto
          with n pos show ?thesis by (simp add: within_budget_node)
        next
          case False
          with r pos ns obj QuerySet show ?thesis
            by (auto simp: inspect_factory.simps within_budget_leaf)
        qed
      next
        case (Object k attrs)
        from r pos ns obj Object obtain cs where
          l: "class_loop h m (depth - 1) attrs [] = Inr (cs, m')"
          and n: "n = Node InspectClass name obj (depth - 1) cs"
          by (auto simp: inspect_factory.simps split: sum.splits)
        from 1(4)[OF _ ns obj Object] pos l have "\<forall>c \<in> set cs. within_budget (depth - 1) c"
          by auto
        with n pos show ?thesis by (simp add: within_budget_node)
      qed
    qed
  qed
next
  case (2 h m depth children name v)
  obtain seen m1 where s: "been_seen_before h m v = (seen, m1)"
    by (cases "been_seen_before h m v")
  show ?case
  proof (cases seen)
    case True
    with s show ?thesis by (auto simp: add_child.simps within_budget_leaf)
  next
    case False
    from 2(1)[OF refl s[symmetric] False] s False
    show ?thesis by (auto simp: add_child.simps split: sum.splits)
  qed
next
  case (3 h m depth children)
  show ?case by simp
next
  case (5 h m depth children)
  show ?case by simp
next
  case (7 h m depth children)
  show ?case by simp
next
  case (9 h m depth children)
  show ?case by simp
next
  case (4 h m depth key v rest children)
  let ?r = "if 0 < depth then add_child h m depth children key v else Inr (children, m)"
  show ?case
  proof (cases ?r)
    case (Inl e)
    then show ?thesis by simp
  next
    case (Inr b)
    obtain x y where b: "b = (x, y)" by (cases b)
    have x: "\<exists>new. x = children @ new \<and> (\<forall>c \<in> set new. within_budget depth c)"
    proof (cases "0 < depth")
      case True
      with 4(1) Inr b obtain c where "x = children @ [c]" "within_budget depth c" by auto
      then show ?thesis by (intro exI[of _ "[c]"]) simp
    next
      case False
      with Inr b show ?thesis by simp
    qed
    show ?thesis
    proof (cases "get_max_items y \<le> int (length x)")
      case True
      with Inr b x show ?thesis by simp
    next
      case False
      show ?thesis
      proof (intro allI impI)
        fix cs' m'
        assume "dict_loop h m depth ((key, v) # rest) children = Inr (cs', m')"
        with Inr b False have "dict_loop h y depth rest x = Inr (cs', m')" by simp
        with 4(2)[OF Inr b[symmetric] False] obtain new2 where
          "cs' = x @ new2" "\<forall>c \<in> set new2. within_budget depth c" by auto
        with x show "\<exists>new. cs' = children @ new \<and> (\<forall>c \<in> set new. within_budget depth c)"
          by auto
      qed
    qed
  qed
next
  case (6 h m depth index item rest children)
  let ?r = "if 0 < depth then add_child h m depth children (str_nat index) item
            else Inr (children, m)"
  show ?case
  proof (cases ?r)
    case (Inl e)
    then show ?thesis by simp
  next
    case (Inr b)
    obtain x y where b: "b = (x, y)" by (cases b)
    have x: "\<exists>new. x = children @ new \<and> (\<forall>c \<in> set new. within_budget depth c)"
    proof (cases "0 < depth")
      case True
      with 6(1) Inr b obtain c where "x = children @ [c]" "within_budget depth c" by auto
      then show ?thesis by (intro exI[of _ "[c]"]) simp
    next
      case False
      with Inr b show ?thesis by simp
    qed
    show ?thesis
    proof (cases "get_max_items y \<le> int index")
      case True
      with Inr b x show ?thesis by simp
    next
      case False
      show ?thesis
      proof (intro allI impI)
        fix cs' m'
        assume "list_loop h m depth ((index, item) # rest) children = Inr (cs', m')"
        with Inr b False have "list_loop h y depth rest x = Inr (cs', m')" by simp
        with 6(2)[OF Inr b[symmetric] False] obtain new2 where
          "cs' = x @ new2" "\<forall>c \<in> set new2. within_budget depth c" by auto
        with x show "\<exists>new. cs' = children @ new \<and> (\<forall>c \<in> set new. within_budget depth c)"
          by auto
      qed
    qed
  qed
next
  case (8 h m depth index tree_item rest children)
  show ?case
  proof (intro allI impI)
    fix cs' m'
    assume pos: "0 < depth"
      and r: "queryset_loop h m depth ((index, tree_item) # rest) children = Inr (cs', m')"
    obtain x y where
      a: "add_child h m depth children (str_nat index) tree_item = Inr (x, y)"
    proof (cases "add_child h m depth children (str_nat index) tree_item")
      case (Inl e)
      with r show ?thesis by simp
    next
      case (Inr b)
      with that show ?thesis by (cases b) simp
    qed
    have l: "queryset_loop h y depth rest x = Inr (cs', m')"
      using r a by simp
    from 8(1) pos a obtain c where x: "x = children @ [c]" "within_budget depth c" by auto
    from 8(2)[OF a refl] pos l obtain new2 where
      "cs' = x @ new2" "\<forall>c \<in> set new2. within_budget depth c" by auto
    with x show "\<exists>new. cs' = children @ new \<and> (\<forall>c \<in> set new. within_budget depth c)"
      by auto
  qed
next
  case (10 h m depth attr_name outcome rest children)
  show ?case
  proof (intro allI impI)
    fix cs' m'
    assume r: "class_loop h m depth ((attr_name, outcome) # rest) children = Inr (cs', m')"
    show "\<exists>new. cs' = children @ new \<and> (\<forall>c \<in> set new. within_budget depth c)"
    proof (cases "starts_with ''_'' attr_name")
      case True
      with 10(1) r show ?thesis by simp
    next
      case priv: False
      with r obtain attr_value where val: "getattr_default outcome PyNone = Inr attr_value"
        by (cases "getattr_default outcome PyNone") auto
      show ?thesis
      proof (cases "isbuiltin_or_type h attr_value")
        case True
        with 10(2)[OF priv val] priv val r show ?thesis by simp
      next
        case nb: False
        with r priv val obtain flag where flag: "do_not_call_in_templates h attr_value = Inr flag"
          by (cases "do_not_call_in_templates h attr_value") auto
        show ?thesis
        proof (cases flag)
          case True
          with 10(3)[OF priv val nb flag] priv val nb flag r show ?thesis by simp
        next
          case nf: False
          show ?thesis
          proof (cases "0 < depth")
            case pos: True
            obtain x y where
              a: "add_child h m depth children attr_name attr_value = Inr (x, y)"
            proof (cases "add_child h m depth children attr_name attr_value")
              case (Inl e)
              with r priv val nb flag nf pos show ?thesis by simp
            next
              case (Inr b)
              with that show ?thesis by (cases b) simp
            qed
            have l: "class_loop h y depth rest x = Inr (cs', m')"
              using r priv val nb flag nf pos a by simp
            from 10(4)[OF priv val nb flag nf pos] pos a
            obtain c where x: "x = children @ [c]" "within_budget depth c" by auto
            from 10(5)[OF priv val nb flag nf pos a refl] l obtain new2 where
              "cs' = x @ new2" "\<forall>c \<in> set new2. within_budget depth c" by auto
            with x show ?thesis by auto
          next
            case False
            with 10(6)[OF priv val nb flag nf] priv val nb flag nf r show ?thesis by simp
          qed
        qed
      qed
    qed
  qed
qed

lemma self_tree:
  "InspectionManager heap_self ''x'' (Ref 0) 2 5 =
     Inr (Node (InspectDict 1) ''x'' (Ref 0) 2
            [Node (InspectDict 1) ''self'' (Ref 0) 1
               [Node InspectDuplicate ''self'' PyNone 1 []]],
          \<lparr>max_items = 5, processed = [py_id (Ref 0) \<mapsto> True]\<rparr>)"
  by (auto simp add: InspectionManager_def inspect_factory.simps add_child.simps heap_self_def
        been_seen_before_def get_max_items_def)

lemma pair_tree:
  "InspectionManager heap_pair ''a'' (Ref 0) 3 5 =
     Inr (Node (InspectDict 1) ''a'' (Ref 0) 3
            [Node (InspectDict 1) ''b'' (Ref 1) 2
               [Node (InspectDict 1) ''a'' (Ref 0) 1
                  [Node InspectDuplicate ''b'' PyNone 1 []]]],
          \<lparr>max_items = 5,
            processed = [py_id (Ref 1) \<mapsto> True, py_id (Ref 0) \<mapsto> True]\<rparr>)"
  by (auto simp add: InspectionManager_def inspect_factory.simps add_child.simps heap_pair_def
        been_seen_before_def get_max_items_def)

text \<open>
  C1. The build is a total function on every object graph, cyclic or not: every call
  of \<open>inspect_factory\<close>, \<open>_add_child\<close> and the loops lies in the domain on which the
  recursion is well-founded, since each descent into a child takes one unit off the
  depth budget. A tree that \<open>InspectionManager\<close> returns has at most \<open>max_depth + 1\<close>
  levels, and each of its \<open>InspectDuplicate\<close> nodes is without children.
\<close>

theorem inspection_terminates:
  "inspect_factory_add_child_dict_loop_list_loop_queryset_loop_class_loop_dom call
   \<and> (\<forall>n m'. InspectionManager h name obj max_depth max_items_arg = Inr (n, m')
          \<longrightarrow> node_height n \<le> nat (max_depth + 1) \<and> duplicates_childless n)"
proof
  have "All inspect_factory_add_child_dict_loop_list_loop_queryset_loop_class_loop_dom"
    by (rule "inspect_factory_add_child_dict_loop_list_loop_queryset_loop_class_loop.termination"
          [of build_order])
       (auto simp: build_order_def)
  then show "inspect_factory_add_child_dict_loop_list_loop_queryset_loop_class_loop_dom call"
    by blast
next
  show "\<forall>n m'. InspectionManager h name obj max_depth max_items_arg = Inr (n, m')
          \<longrightarrow> node_height n \<le> nat (max_depth + 1) \<and> duplicates_childless n"
    using build_within_budget(1)[of h _ name obj "max_depth + 1"]
    unfolding InspectionManager_def within_budget_def by blast
qed

theorem inspection_terminates_witness:
  "inspect_factory_add_child_dict_loop_list_loop_queryset_loop_class_loop_dom
     (Inl (Inl (heap_self, manager0, ''x'', Ref 0, 3)))
   \<and> InspectionManager heap_self ''x'' (Ref 0) 2 5 =
     Inr (Node (InspectDict 1) ''x'' (Ref 0) 2
            [Node (InspectDict 1) ''self'' (Ref 0) 1
               [Node InspectDuplicate ''self'' PyNone 1 []]],
          \<lparr>max_items = 5, processed = [py_id (Ref 0) \<mapsto> True]\<rparr>)
   \<and> node_height (Node (InspectDict 1) ''x'' (Ref 0) 2
            [Node (InspectDict 1) ''self'' (Ref 0) 1
               [Node InspectDuplicate ''self'' PyNone 1 []]]) \<le> nat (2 + 1)
   \<and> duplicates_childless (Node (InspectDict 1) ''x'' (Ref 0) 2
            [Node (InspectDict 1) ''self'' (Ref 0) 1
               [Node InspectDuplicate ''self'' PyNone 1 []]])
   \<and> InspectionManager heap_pair ''a'' (Ref 0) 3 5 =
     Inr (Node (InspectDict 1) ''a'' (Ref 0) 3
            [Node (InspectDict 1) ''b'' (Ref 1) 2
               [Node (InspectDict 1) ''a'' (Ref 0) 1
                  [Node InspectDuplicate ''b'' PyNone 1 []]]],
          \<lparr>max_items = 5,
            processed = [py_id (Ref 1) \<mapsto> True, py_id (Ref 0) \<mapsto> True]\<rparr>)
   \<and> node_height (Node (InspectDict 1) ''a'' (Ref 0) 3
            [Node (InspectDict 1) ''b'' (Ref 1) 2
               [Node (InspectDict 1) ''a'' (Ref 0) 1
                  [Node InspectDuplicate ''b'' PyNone 1 []]]]) \<le> nat (3 + 1)"
  using inspection_terminates[of "Inl (Inl (heap_self, manager0, ''x'', Ref 0, 3))"
      heap_self "''x''" "Ref 0" 2 5]
    inspection_terminates[of "Inl (Inl (heap_self, manager0, ''x'', Ref 0, 3))"
      heap_pair "''a''" "Ref 0" 3 5]
    self_tree pair_tree
  by simp

section \<open>Containers without depth left\<close>

lemma dict_loop_no_depth:
  "depth \<le> 0 \<Longrightarrow> dict_loop h m depth items children = Inr (children, m)"
  by (induction items) auto

lemma list_loop_no_depth:
  "depth \<le> 0 \<Longrightarrow> list_loop h m depth eitems children = Inr (children, m)"
  by (induction eitems) auto

lemma class_loop_no_depth:
  "depth \<le> 0 \<Longrightarrow> class_loop h m depth attrs children = Inr (cs', m')
     \<Longrightarrow> cs' = children \<and> m' = m"
proof (induction attrs)
  case Nil
  then show ?case by simp
next
  case (Cons a attrs)
  obtain attr_name outcome where a: "a = (attr_name, outcome)" by (cases a)
  show ?case
  proof (cases "starts_with ''_'' attr_name")
    case True
    with Cons a show ?thesis by simp
  next
    case priv: False
    show ?thesis
    proof (cases "getattr_default outcome PyNone")
      case (Inl e)
      with Cons.prems a priv show ?thesis by simp
    next
      case val: (Inr attr_value)
      have nd: "\<not> 0 < depth"
        using Cons.prems(1) by simp
      show ?thesis
      proof (cases "do_not_call_in_templates h attr_value")
        case (Inl e)
        with Cons a priv val show ?thesis by (cases "isbuiltin_or_type h attr_value") simp_all
      next
        case (Inr flag)
        with Cons a priv val nd show ?thesis
          by (cases "isbuiltin_or_type h attr_value"; cases flag) simp_all
      qed
    qed
  qed
qed

lemma nested_tree:
  "InspectionManager heap_nested ''x'' (Ref 0) 1 10 =
     Inr (Node (InspectDict 2) ''x'' (Ref 0) 1
            [Node (InspectSimpleType (SStr ''1'')) ''a'' (Ref 1) 0 [],
             Node (InspectDict 2) ''b'' (Ref 2) 0 []],
          \<lparr>max_items = 10, processed = [py_id (Ref 2) \<mapsto> True]\<rparr>)"
  by (auto simp add: InspectionManager_def inspect_factory.simps add_child.simps
        heap_nested_def been_seen_before_def get_max_items_def str_int_def digit_chr_def)

text \<open>
  C5, as the code has it. A container classified with \<open>depth = 1\<close>, so that no depth
  is left for its children, gives a node of its own class, titled with its name, whose
  children are the empty list, not \<open>None\<close>: \<open>get_children\<close> gives \<open>None\<close> only for
  the classes whose \<open>get_total_children\<close> is \<open>None\<close>. The declared count is the number
  of entries for a dict, a list and a QuerySet, and 0 for an instance (whose node is
  there when reading its attributes raises nothing).
\<close>

theorem exhausted_container_has_empty_children:
  "(h r = Dict items \<longrightarrow>
      (\<exists>n. inspect_factory h m name (Ref r) 1 = Inr (n, m)
         \<and> inspect_type n = ''InspectDict'' \<and> get_format_title n = name
         \<and> get_total_children n = Some (length items) \<and> get_children n = Some []))
   \<and> (h r = List elems \<longrightarrow>
      (\<exists>n. inspect_factory h m name (Ref r) 1 = Inr (n, m)
         \<and> inspect_type n = ''InspectList'' \<and> get_format_title n = name
         \<and> get_total_children n = Some (length elems) \<and> get_children n = Some []))
   \<and> (h r = QuerySet rows \<longrightarrow>
      (\<exists>n. inspect_factory h m name (Ref r) 1 = Inr (n, m)
         \<and> inspect_type n = ''InspectQuerySet'' \<and> get_format_title n = name
         \<and> get_total_children n = Some (length rows) \<and> get_children n = Some []))
   \<and> (h r = Object k attrs \<longrightarrow>
      (\<forall>n m'. inspect_factory h m name (Ref r) 1 = Inr (n, m') \<longrightarrow>
         inspect_type n = ''InspectClass'' \<and> get_format_title n = name
         \<and> get_total_children n = Some 0 \<and> get_children n = Some [] \<and> m' = m))"
proof -
  have d: "\<exists>n. inspect_factory h m name (Ref r) 1 = Inr (n, m)
         \<and> inspect_type n = ''InspectDict'' \<and> get_format_title n = name
         \<and> get_total_children n = Some (length items) \<and> get_children n = Some []"
    if "h r = Dict items"
  proof -
    from that have "inspect_factory h m name (Ref r) 1 =
               Inr (Node (InspectDict (length items)) name (Ref r) 0 [], m)"
      by (simp add: inspect_factory.simps dict_loop_no_depth)
    then show ?thesis by (simp add: get_children_def)
  qed
  have l: "\<exists>n. inspect_factory h m name (Ref r) 1 = Inr (n, m)
         \<and> inspect_type n = ''InspectList'' \<and> get_format_title n = name
         \<and> get_total_children n = Some (length elems) \<and> get_children n = Some []"
    if "h r = List elems"
  proof -
    from that have "inspect_factory h m name (Ref r) 1 =
               Inr (Node (InspectList (length elems)) name (Ref r) 0 [], m)"
      by (simp add: inspect_factory.simps list_loop_no_depth)
    then show ?thesis by (simp add: get_children_def)
  qed
  have q: "\<exists>n. inspect_factory h m name (Ref r) 1 = Inr (n, m)
         \<and> inspect_type n = ''InspectQuerySet'' \<and> get_format_title n = name
         \<and> get_total_children n = Some (length rows) \<and> get_children n = Some []"
    if "h r = QuerySet rows"
  proof -
    from that have "inspect_factory h m name (Ref r) 1 =
               Inr (Node (InspectQuerySet (length rows)) name (Ref r) 0 [], m)"
      by (simp add: inspect_factory.simps)
    then show ?thesis by (simp add: get_children_def)
  qed
  have o: "inspect_type n = ''InspectClass'' \<and> get_format_title n = name
         \<and> get_total_children n = Some 0 \<and> get_children n = Some [] \<and> m' = m"
    if obj: "h r = Object k attrs"
      and res: "inspect_factory h m name (Ref r) 1 = Inr (n, m')" for n m'
  proof (cases "class_loop h m 0 attrs []")
    case (Inl e)
    with obj res show ?thesis by (simp add: inspect_factory.simps)
  next
    case (Inr b)
    obtain cs m1 where b: "b = (cs, m1)" by (cases b)
    from class_loop_no_depth[of 0 h m attrs "[]" cs m1] Inr b
    have "cs = []" and "m1 = m" by simp_all
    with obj res Inr b show ?thesis
      by (auto simp: inspect_factory.simps get_children_def)
  qed
  from d l q o show ?thesis by blast
qed

theorem exhausted_container_has_empty_children_witness:
  "heap_containers 0 = Dict [(''k'', Ref 4)]
   \<and> (\<exists>n. inspect_factory heap_containers manager0 ''d'' (Ref 0) 1 = Inr (n, manager0)
         \<and> inspect_type n = ''InspectDict'' \<and> get_format_title n = ''d''
         \<and> get_total_children n = Some 1 \<and> get_children n = Some [])
   \<and> heap_containers 1 = List [Ref 4, Ref 5]
   \<and> (\<exists>n. inspect_factory heap_containers manager0 ''l'' (Ref 1) 1 = Inr (n, manager0)
         \<and> inspect_type n = ''InspectList'' \<and> get_format_title n = ''l''
         \<and> get_total_children n = Some 2 \<and> get_children n = Some [])
   \<and> heap_containers 2 = QuerySet [Ref 4, Ref 5, Ref 6]
   \<and> (\<exists>n. inspect_factory heap_containers manager0 ''q'' (Ref 2) 1 = Inr (n, manager0)
         \<and> inspect_type n = ''InspectQuerySet'' \<and> get_format_title n = ''q''
         \<and> get_total_children n = Some 3 \<and> get_children n = Some [])
   \<and> heap_containers 3 = Object Instance [(''size'', Returns (Ref 4))]
   \<and> inspect_factory heap_containers manager0 ''o'' (Ref 3) 1 =
        Inr (Node InspectClass ''o'' (Ref 3) 0 [], manager0)
   \<and> get_total_children (Node InspectClass ''o'' (Ref 3) 0 []) = Some 0
   \<and> get_children (Node InspectClass ''o'' (Ref 3) 0 []) = Some []"
proof -
  have d: "heap_containers 0 = Dict [(''k'', Ref 4)]"
    and l: "heap_containers 1 = List [Ref 4, Ref 5]"
    and q: "heap_containers 2 = QuerySet [Ref 4, Ref 5, Ref 6]"
    and ob: "heap_containers 3 = Object Instance [(''size'', Returns (Ref 4))]"
    by (simp_all add: heap_containers_def)
  have o: "inspect_factory heap_containers manager0 ''o'' (Ref 3) 1 =
             Inr (Node InspectClass ''o'' (Ref 3) 0 [], manager0)"
    by (simp add: inspect_factory.simps heap_containers_def)
  have "\<exists>n. inspect_factory heap_containers manager0 ''d'' (Ref 0) 1 = Inr (n, manager0)
         \<and> inspect_type n = ''InspectDict'' \<and> get_format_title n = ''d''
         \<and> get_total_children n = Some 1 \<and> get_children n = Some []"
    using exhausted_container_has_empty_children
            [of heap_containers 0 "[(''k'', Ref 4)]" manager0 "''d''"] d
    by simp
  moreover
  have "\<exists>n. inspect_factory heap_containers manager0 ''l'' (Ref 1) 1 = Inr (n, manager0)
         \<and> inspect_type n = ''InspectList'' \<and> get_format_title n = ''l''
         \<and> get_total_children n = Some 2 \<and> get_children n = Some []"
    using exhausted_container_has_empty_children
            [of heap_containers 1 _ manager0 "''l''" "[Ref 4, Ref 5]"] l
    by (simp add: numeral_2_eq_2)
  moreover
  have "\<exists>n. inspect_factory heap_containers manager0 ''q'' (Ref 2) 1 = Inr (n, manager0)
         \<and> inspect_type n = ''InspectQuerySet'' \<and> get_format_title n = ''q''
         \<and> get_total_children n = Some 3 \<and> get_children n = Some []"
    using exhausted_container_has_empty_children
            [of heap_containers 2 _ manager0 "''q''" _ "[Ref 4, Ref 5, Ref 6]"] q
    by (simp add: numeral_3_eq_3)
  moreover
  have "get_total_children (Node InspectClass ''o'' (Ref 3) 0 []) = Some 0
        \<and> get_children (Node InspectClass ''o'' (Ref 3) 0 []) = Some []"
    using exhausted_container_has_empty_children
            [of heap_containers 3 _ manager0 "''o''" _ _ Instance "[(''size'', Returns (Ref 4))]"]
          ob o
    by simp
  ultimately show ?thesis
    using d l q ob o by simp
qed

text \<open>
  The spec's own example \<open>{"a": 1, "b": {"c": 2, "d": 3}}\<close> with \<open>max_depth = 1\<close>: the
  node of \<open>b\<close> declares two children and its children are the empty list, not \<open>None\<close>.
\<close>

theorem exhausted_container_children_counterexample:
  "InspectionManager heap_nested ''x'' (Ref 0) 1 10 =
     Inr (Node (InspectDict 2) ''x'' (Ref 0) 1
            [Node (InspectSimpleType (SStr ''1'')) ''a'' (Ref 1) 0 [],
             Node (InspectDict 2) ''b'' (Ref 2) 0 []],
          \<lparr>max_items = 10, processed = [py_id (Ref 2) \<mapsto> True]\<rparr>)
   \<and> node_depth (Node (InspectDict 2) ''b'' (Ref 2) 0 []) = 0
   \<and> get_total_children (Node (InspectDict 2) ''b'' (Ref 2) 0 []) = Some 2
   \<and> get_children (Node (InspectDict 2) ''b'' (Ref 2) 0 []) = Some []
   \<and> get_children (Node (InspectDict 2) ''b'' (Ref 2) 0 []) \<noteq> None"
  using nested_tree by (simp add: get_children_def)

section \<open>Duplicates and the visited set\<close>

lemma add_child_duplicate:
  "been_seen_before h m v = (True, m')
     \<Longrightarrow> add_child h m depth children name v =
           Inr (children @ [Node InspectDuplicate name PyNone depth []], m')"
  by (simp add: add_child.simps)

lemma seen_before_is_object:
  "been_seen_before h m v = (True, m') \<Longrightarrow> py_id v \<noteq> py_id PyNone \<and> m' = m"
  by (cases v) (auto simp: been_seen_before_def Let_def split: if_splits)

lemma add_child_registers_first:
  assumes "\<not> isinstance_simple h v" and "v \<noteq> PyNone"
    and "been_seen_before h m v = (False, m1)"
  shows "processed m1 (py_id v) = Some True
         \<and> add_child h m depth children name v =
             (case inspect_factory h m1 name v depth of
                Inl e \<Rightarrow> Inl e
              | Inr (child, m2) \<Rightarrow> Inr (children @ [child], m2))"
  using assms by (auto simp: been_seen_before_def add_child.simps Let_def split: if_splits)

text \<open>
  C2, on the self-referencing dict with the default budgets. The node emitted where
  the dict is met again is an \<open>InspectDuplicate\<close> without children, but \<open>_add_child\<close>
  builds it over \<open>None\<close>: its link is \<open>id(None)\<close>, not the identity that the node of
  the dict reports.
\<close>

theorem duplicate_links_to_none:
  "InspectionManager heap_self ''x'' (Ref 0) 2 5 =
     Inr (Node (InspectDict 1) ''x'' (Ref 0) 2
            [Node (InspectDict 1) ''self'' (Ref 0) 1
               [Node InspectDuplicate ''self'' PyNone 1 []]],
          \<lparr>max_items = 5, processed = [py_id (Ref 0) \<mapsto> True]\<rparr>)
   \<and> inspect_type (Node InspectDuplicate ''self'' PyNone 1 []) = ''InspectDuplicate''
   \<and> get_children (Node InspectDuplicate ''self'' PyNone 1 []) = None
   \<and> get_format_link_to (Node InspectDuplicate ''self'' PyNone 1 []) = Some (py_id PyNone)
   \<and> get_format_id (Node (InspectDict 1) ''self'' (Ref 0) 1
                       [Node InspectDuplicate ''self'' PyNone 1 []]) = py_id (Ref 0)
   \<and> get_format_link_to (Node InspectDuplicate ''self'' PyNone 1 []) \<noteq>
       Some (get_format_id (Node (InspectDict 1) ''self'' (Ref 0) 1
                              [Node InspectDuplicate ''self'' PyNone 1 []]))"
  using self_tree by (simp add: get_children_def get_format_id_def)

text \<open>
  C3, on the same run. \<open>InspectionManager.__init__\<close> classifies the root without
  asking \<open>been_seen_before\<close>, so the visited set is empty while the children of the root
  are classified: the child \<open>self\<close> is not seen before, is registered only then, and is
  expanded as a dict of its own. The duplicate is one level further down, and its link is
  \<open>id(None)\<close>.
\<close>

theorem root_is_not_registered:
  "been_seen_before heap_self \<lparr>max_items = 5, processed = Map.empty\<rparr> (Ref 0) =
     (False, \<lparr>max_items = 5, processed = [py_id (Ref 0) \<mapsto> True]\<rparr>)
   \<and> InspectionManager heap_self ''x'' (Ref 0) 2 5 =
     Inr (Node (InspectDict 1) ''x'' (Ref 0) 2
            [Node (InspectDict 1) ''self'' (Ref 0) 1
               [Node InspectDuplicate ''self'' PyNone 1 []]],
          \<lparr>max_items = 5, processed = [py_id (Ref 0) \<mapsto> True]\<rparr>)
   \<and> inspect_type (Node (InspectDict 1) ''self'' (Ref 0) 1
                      [Node InspectDuplicate ''self'' PyNone 1 []]) = ''InspectDict''
   \<and> get_format_link_to (Node (InspectDict 1) ''self'' (Ref 0) 1
                      [Node InspectDuplicate ''self'' PyNone 1 []]) = None
   \<and> get_format_link_to (Node InspectDuplicate ''self'' PyNone 1 []) \<noteq>
       Some (get_format_id (Node (InspectDict 1) ''x'' (Ref 0) 2
            [Node (InspectDict 1) ''self'' (Ref 0) 1
               [Node InspectDuplicate ''self'' PyNone 1 []]]))"
  using self_tree
  by (simp add: been_seen_before_def heap_self_def get_format_id_def)

section \<open>The breadth budget\<close>

text \<open>The build never changes \<open>_max_items\<close>, and \<open>_add_child\<close> appends one node.\<close>

lemma seen_before_max_items:
  "been_seen_before h m v = (seen, m') \<Longrightarrow> max_items m' = max_items m"
  by (auto simp: been_seen_before_def Let_def split: if_splits)

lemma build_keeps_max_items:
  shows "\<forall>n m'. inspect_factory h m name obj depth = Inr (n, m')
           \<longrightarrow> max_items m' = max_items m"
    and "\<forall>cs' m'. add_child h m depth children name v = Inr (cs', m')
           \<longrightarrow> max_items m' = max_items m"
    and "\<forall>cs' m'. dict_loop h m depth items children = Inr (cs', m')
           \<longrightarrow> max_items m' = max_items m"
    and "\<forall>cs' m'. list_loop h m depth eitems children = Inr (cs', m')
           \<longrightarrow> max_items m' = max_items m"
    and "\<forall>cs' m'. queryset_loop h m depth eitems children = Inr (cs', m')
           \<longrightarrow> max_items m' = max_items m"
    and "\<forall>cs' m'. class_loop h m depth attrs children = Inr (cs', m')
           \<longrightarrow> max_items m' = max_items m"
proof (induct h m name obj depth and h m depth children name v
          and h m depth items children and h m depth eitems children
          and h m depth eitems children and h m depth attrs children
       rule: build_induct)
  case (1 h m name obj depth)
  show ?case
  proof (intro allI impI)
    fix n m'
    assume r: "inspect_factory h m name obj depth = Inr (n, m')"
    have pos: "\<not> depth \<le> 0"
      using r by (cases "depth \<le> 0") (simp_all add: inspect_factory.simps)
    show "max_items m' = max_items m"
    proof (cases "isinstance_simple h obj \<or> obj = PyNone")
      case True
      with r pos show ?thesis by (auto simp: inspect_factory.simps)
    next
      case ns: False
      then obtain r' where obj: "obj = Ref r'" by (cases obj) auto
      show ?thesis
      proof (cases "h r'")
        case (Scalar s)
        with ns obj show ?thesis by simp
      next
        case (Method ps)
        with r pos ns obj show ?thesis by (auto simp: inspect_factory.simps)
      next
        case (Partial fn ps args kws)
        with r pos ns obj show ?thesis by (auto simp: inspect_factory.simps)
      next
        case (Dict items)
        from r pos ns obj Dict obtain cs where
          "dict_loop h m (depth - 1) items [] = Inr (cs, m')"
          by (auto simp: inspect_factory.simps split: sum.splits)
        with 1(1)[OF pos ns obj Dict] show ?thesis by blast
      next
        case (List items)
        from r pos ns obj List obtain cs where
          "list_loop h m (depth - 1) (enumerate 0 items) [] = Inr (cs, m')"
          by (auto simp: inspect_factory.simps split: sum.splits)
        with 1(2)[OF pos ns obj List] show ?thesis by blast
      next
        case (QuerySet rows)
        show ?thesis
        proof (cases "0 < length rows \<and> 0 < depth - 1")
          case True
          with r pos ns obj QuerySet obtain query_items cs where
            q: "queryset_slice rows (get_max_items m) = Inr query_items"
            and l: "queryset_loop h m (depth - 1) (enumerate 0 query_items) [] = Inr (cs, m')"
            by (auto simp: inspect_factory.simps split: sum.splits)
          from 1(3)[OF pos ns obj QuerySet refl True q] l show ?thesis by blast
        next
          case False
          with r pos ns obj QuerySet show ?thesis by (auto simp: inspect_factory.simps)
        qed
      next
        case (Object k attrs)
        from r pos ns obj Object obtain cs where
          "class_loop h m (depth - 1) attrs [] = Inr (cs, m')"
          by (auto simp: inspect_factory.simps split: sum.splits)
        with 1(4)[OF pos ns obj Object] show ?thesis by blast
      qed
    qed
  qed
next
  case (2 h m depth children name v)
  obtain seen m1 where s: "been_seen_before h m v = (seen, m1)"
    by (cases "been_seen_before h m v")
  note k = seen_before_max_items[OF s]
  show ?case
  proof (cases seen)
    case True
    with s k show ?thesis by (simp add: add_child.simps)
  next
    case False
    from 2(1)[OF refl s[symmetric] False]
    have ih: "\<forall>n m'. inspect_factory h m1 name v depth = Inr (n, m')
                \<longrightarrow> max_items m' = max_items m1" .
    show ?thesis
    proof (intro allI impI)
      fix cs' m'
      assume a: "add_child h m depth children name v = Inr (cs', m')"
      obtain c where "inspect_factory h m1 name v depth = Inr (c, m')"
      proof (cases "inspect_factory h m1 name v depth")
        case (Inl e)
        with a s False show ?thesis by (simp add: add_child.simps)
      next
        case (Inr p)
        with a s False that show ?thesis by (cases p) (simp add: add_child.simps)
      qed
      with ih have "max_items m' = max_items m1" by blast
      with k show "max_items m' = max_items m" by simp
    qed
  qed
next
  case (3 h m depth children)
  show ?case by simp
next
  case (5 h m depth children)
  show ?case by simp
next
  case (7 h m depth children)
  show ?case by simp
next
  case (9 h m depth children)
  show ?case by simp
next
  case (4 h m depth key v rest children)
  let ?r = "if 0 < depth then add_child h m depth children key v else Inr (children, m)"
  show ?case
  proof (intro allI impI)
    fix cs' m'
    assume a: "dict_loop h m depth ((key, v) # rest) children = Inr (cs', m')"
    obtain x y where r: "?r = Inr (x, y)"
    proof (cases ?r)
      case (Inl e)
      with a show ?thesis by simp
    next
      case (Inr b)
      with that show ?thesis by (cases b) simp
    qed
    have y: "max_items y = max_items m"
    proof (cases "0 < depth")
      case True
      with r have "add_child h m depth children key v = Inr (x, y)" by simp
      with 4(1)[OF True] show ?thesis by blast
    next
      case False
      with r show ?thesis by simp
    qed
    show "max_items m' = max_items m"
    proof (cases "get_max_items y \<le> int (length x)")
      case True
      with a r have "m' = y" by simp
      with y show ?thesis by simp
    next
      case False
      with a r have "dict_loop h y depth rest x = Inr (cs', m')" by simp
      with 4(2)[OF r refl False] have "max_items m' = max_items y" by blast
      with y show ?thesis by simp
    qed
  qed
next
  case (6 h m depth index item rest children)
  let ?r = "if 0 < depth then add_child h m depth children (str_nat index) item
            else Inr (children, m)"
  show ?case
  proof (intro allI impI)
    fix cs' m'
    assume a: "list_loop h m depth ((index, item) # rest) children = Inr (cs', m')"
    obtain x y where r: "?r = Inr (x, y)"
    proof (cases ?r)
      case (Inl e)
      with a show ?thesis by simp
    next
      case (Inr b)
      with that show ?thesis by (cases b) simp
    qed
    have y: "max_items y = max_items m"
    proof (cases "0 < depth")
      case True
      with r have "add_child h m depth children (str_nat index) item = Inr (x, y)" by simp
      with 6(1)[OF True] show ?thesis by blast
    next
      case False
      with r show ?thesis by simp
    qed
    show "max_items m' = max_items m"
    proof (cases "get_max_items y \<le> int index")
      case True
      with a r have "m' = y" by simp
      with y show ?thesis by simp
    next
      case False
      with a r have "list_loop h y depth rest x = Inr (cs', m')" by simp
      with 6(2)[OF r refl False] have "max_items m' = max_items y" by blast
      with y show ?thesis by simp
    qed
  qed
next
  case (8 h m depth index tree_item rest children)
  show ?case
  proof (intro allI impI)
    fix cs' m'
    assume a: "queryset_loop h m depth ((index, tree_item) # rest) children = Inr (cs', m')"
    obtain x y where
      r: "add_child h m depth children (str_nat index) tree_item = Inr (x, y)"
    proof (cases "add_child h m depth children (str_nat index) tree_item")
      case (Inl e)
      with a show ?thesis by simp
    next
      case (Inr b)
      with that show ?thesis by (cases b) simp
    qed
    from 8(1) r have y: "max_items y = max_items m" by blast
    from a r have "queryset_loop h y depth rest x = Inr (cs', m')" by simp
    with 8(2)[OF r refl] have "max_items m' = max_items y" by blast
    with y show "max_items m' = max_items m" by simp
  qed
next
  case (10 h m depth attr_name outcome rest children)
  show ?case
  proof (intro allI impI)
    fix cs' m'
    assume a: "class_loop h m depth ((attr_name, outcome) # rest) children = Inr (cs', m')"
    show "max_items m' = max_items m"
    proof (cases "starts_with ''_'' attr_name")
      case True
      with a have "class_loop h m depth rest children = Inr (cs', m')" by simp
      with 10(1)[OF True] show ?thesis by blast
    next
      case priv: False
      with a obtain attr_value where val: "getattr_default outcome PyNone = Inr attr_value"
        by (cases "getattr_default outcome PyNone") auto
      show ?thesis
      proof (cases "isbuiltin_or_type h attr_value")
        case True
        with a priv val have "class_loop h m depth rest children = Inr (cs', m')" by simp
        with 10(2)[OF priv val True] show ?thesis by blast
      next
        case nb: False
        with a priv val obtain flag where
          flag: "do_not_call_in_templates h attr_value = Inr flag"
          by (cases "do_not_call_in_templates h attr_value") auto
        show ?thesis
        proof (cases flag)
          case True
          with a priv val nb flag have "class_loop h m depth rest children = Inr (cs', m')"
            by simp
          with 10(3)[OF priv val nb flag True] show ?thesis by blast
        next
          case nf: False
          show ?thesis
          proof (cases "0 < depth")
            case pos: True
            obtain x y where
              r: "add_child h m depth children attr_name attr_value = Inr (x, y)"
            proof (cases "add_child h m depth children attr_name attr_value")
              case (Inl e)
              with a priv val nb flag nf pos show ?thesis by simp
            next
              case (Inr b)
              with that show ?thesis by (cases b) simp
            qed
            from 10(4)[OF priv val nb flag nf pos] r
            have y: "max_items y = max_items m" by blast
            from a priv val nb flag nf pos r
            have "class_loop h y depth rest x = Inr (cs', m')" by simp
            with 10(5)[OF priv val nb flag nf pos r refl]
            have "max_items m' = max_items y" by blast
            with y show ?thesis by simp
          next
            case False
            with a priv val nb flag nf
            have "class_loop h m depth rest children = Inr (cs', m')" by simp
            with 10(6)[OF priv val nb flag nf False] show ?thesis by blast
          qed
        qed
      qed
    qed
  qed
qed

lemma add_child_appends_one:
  "add_child h m depth children name v = Inr (cs', m') \<Longrightarrow> \<exists>c. cs' = children @ [c]"
  by (cases "been_seen_before h m v")
     (auto simp: add_child.simps split: if_splits sum.splits)

lemma add_child_step:
  assumes "add_child h m depth children name v = Inr (x, y)"
  shows "length x = Suc (length children) \<and> max_items y = max_items m"
  using add_child_appends_one[OF assms] build_keeps_max_items(2)[of h m depth children name v] assms
  by auto

lemma dict_loop_length:
  assumes "0 < depth" and "dict_loop h m depth items children = Inr (cs', m')"
  shows "length cs' =
           (if items = [] then length children
            else min (length children + length items)
                     (max (length children + 1) (nat (max_items m))))"
  using assms(2)
proof (induction items arbitrary: children m)
  case Nil
  then show ?case by simp
next
  case (Cons a rest)
  obtain key v where a: "a = (key, v)" by (cases a)
  obtain x y where r: "add_child h m depth children key v = Inr (x, y)"
  proof (cases "add_child h m depth children key v")
    case (Inl e)
    with Cons.prems a assms(1) show ?thesis by simp
  next
    case (Inr b)
    with that show ?thesis by (cases b) simp
  qed
  note st = add_child_step[OF r]
  show ?case
  proof (cases "get_max_items y \<le> int (length x)")
    case True
    with Cons.prems a assms(1) r have "cs' = x" by simp
    with True st show ?thesis by (simp add: get_max_items_def)
  next
    case False
    with Cons.prems a assms(1) r have "dict_loop h y depth rest x = Inr (cs', m')" by simp
    from Cons.IH[OF this] False st show ?thesis
      by (simp add: get_max_items_def split: if_splits)
  qed
qed

lemma list_loop_length:
  assumes "0 < depth" and "list_loop h m depth (enumerate i xs) children = Inr (cs', m')"
  shows "length cs' =
           length children +
           (if xs = [] then 0 else min (length xs) (Suc (nat (max_items m - int i))))"
  using assms(2)
proof (induction xs arbitrary: i children m)
  case Nil
  then show ?case by simp
next
  case (Cons item rest)
  obtain x y where r: "add_child h m depth children (str_nat i) item = Inr (x, y)"
  proof (cases "add_child h m depth children (str_nat i) item")
    case (Inl e)
    with Cons.prems assms(1) show ?thesis by simp
  next
    case (Inr b)
    with that show ?thesis by (cases b) simp
  qed
  note st = add_child_step[OF r]
  show ?case
  proof (cases "get_max_items y \<le> int i")
    case True
    with Cons.prems assms(1) r have "cs' = x" by simp
    with True st show ?thesis by (simp add: get_max_items_def)
  next
    case False
    with Cons.prems assms(1) r
    have "list_loop h y depth (enumerate (Suc i) rest) x = Inr (cs', m')" by simp
    note ih = Cons.IH[OF this]
    have "int i < max_items m"
      using False st by (simp add: get_max_items_def)
    then have e: "nat (max_items m - int i) = Suc (nat (max_items y - int (Suc i)))"
      using st by simp
    show ?thesis
    proof (cases "rest = []")
      case True
      with ih st show ?thesis by simp
    next
      case False
      with ih st show ?thesis unfolding e by simp
    qed
  qed
qed

lemma queryset_loop_length:
  "queryset_loop h m depth eitems children = Inr (cs', m')
     \<Longrightarrow> length cs' = length children + length eitems"
proof (induction eitems arbitrary: children m)
  case Nil
  then show ?case by simp
next
  case (Cons a rest)
  obtain index item where a: "a = (index, item)" by (cases a)
  obtain x y where r: "add_child h m depth children (str_nat index) item = Inr (x, y)"
  proof (cases "add_child h m depth children (str_nat index) item")
    case (Inl e)
    with Cons.prems a show ?thesis by simp
  next
    case (Inr b)
    with that show ?thesis by (cases b) simp
  qed
  from Cons.prems a r have "queryset_loop h y depth rest x = Inr (cs', m')" by simp
  from Cons.IH[OF this] add_child_step[OF r] show ?case by simp
qed

lemma dict_children_count:
  assumes "h r = Dict items" and "1 < depth"
    and "inspect_factory h m name (Ref r) depth = Inr (n, m')"
  shows "get_total_children n = Some (length items)
         \<and> map_option length (get_children n) =
             Some (if items = [] then 0
                   else min (length items) (max 1 (nat (max_items m))))"
proof -
  from assms obtain cs where
    l: "dict_loop h m (depth - 1) items [] = Inr (cs, m')"
    and n: "n = Node (InspectDict (length items)) name (Ref r) (depth - 1) cs"
    by (auto simp: inspect_factory.simps split: sum.splits)
  from assms(2) have "0 < depth - 1" by simp
  from dict_loop_length[OF this l] n show ?thesis
    by (simp add: get_children_def)
qed

lemma list_children_count:
  assumes "h r = List elems" and "1 < depth"
    and "inspect_factory h m name (Ref r) depth = Inr (n, m')"
  shows "get_total_children n = Some (length elems)
         \<and> map_option length (get_children n) =
             Some (if elems = [] then 0
                   else min (length elems) (Suc (nat (max_items m))))"
proof -
  from assms obtain cs where
    l: "list_loop h m (depth - 1) (enumerate 0 elems) [] = Inr (cs, m')"
    and n: "n = Node (InspectList (length elems)) name (Ref r) (depth - 1) cs"
    by (auto simp: inspect_factory.simps split: sum.splits)
  from assms(2) have "0 < depth - 1" by simp
  from list_loop_length[OF this l] n show ?thesis
    by (simp add: get_children_def)
qed

lemma queryset_children_count:
  assumes "h r = QuerySet rows" and "1 < depth"
    and "inspect_factory h m name (Ref r) depth = Inr (n, m')"
  shows "get_total_children n = Some (length rows)
         \<and> map_option length (get_children n) =
             Some (min (length rows) (nat (max_items m)))"
proof (cases "rows = []")
  case True
  with assms show ?thesis
    by (auto simp: inspect_factory.simps get_children_def)
next
  case False
  with assms obtain query_items cs where
    q: "queryset_slice rows (get_max_items m) = Inr query_items"
    and l: "queryset_loop h m (depth - 1) (enumerate 0 query_items) [] = Inr (cs, m')"
    and n: "n = Node (InspectQuerySet (length rows)) name (Ref r) (depth - 1) cs"
    by (auto simp: inspect_factory.simps split: sum.splits)
  from q have "length query_items = min (length rows) (nat (max_items m))"
    by (auto simp: queryset_slice_def get_max_items_def split: if_splits)
  with queryset_loop_length[OF l] n show ?thesis
    by (simp add: get_children_def)
qed

text \<open>
  C4, on the list \<open>[1, 2, 3]\<close> with \<open>max_items = 1\<close> and on the dict
  \<open>{"a": 1, "b": 2, "c": 3}\<close> with \<open>max_items = 0\<close>. The loop of \<open>InspectList\<close> compares
  the index of the entry it has just added with \<open>max_items\<close>, so it keeps one entry
  more than the budget; the loop of \<open>InspectDict\<close> tests the budget only after adding,
  so it keeps one entry under a budget of zero. Both declare their three entries.
  (\<open>dict_children_count\<close>, \<open>list_children_count\<close> and \<open>queryset_children_count\<close>
  above give the number of children for every budget.)
\<close>

theorem list_keeps_one_more_than_max_items:
  "InspectionManager heap_list3 ''xs'' (Ref 0) 1 1 =
     Inr (Node (InspectList 3) ''xs'' (Ref 0) 1
            [Node (InspectSimpleType (SStr ''1'')) ''0'' (Ref 1) 0 [],
             Node (InspectSimpleType (SStr ''2'')) ''1'' (Ref 2) 0 []],
          \<lparr>max_items = 1, processed = Map.empty\<rparr>)
   \<and> get_total_children (Node (InspectList 3) ''xs'' (Ref 0) 1
            [Node (InspectSimpleType (SStr ''1'')) ''0'' (Ref 1) 0 [],
             Node (InspectSimpleType (SStr ''2'')) ''1'' (Ref 2) 0 []]) = Some 3
   \<and> map_option length (get_children (Node (InspectList 3) ''xs'' (Ref 0) 1
            [Node (InspectSimpleType (SStr ''1'')) ''0'' (Ref 1) 0 [],
             Node (InspectSimpleType (SStr ''2'')) ''1'' (Ref 2) 0 []])) = Some 2
   \<and> InspectionManager heap_dict3 ''d'' (Ref 0) 1 0 =
     Inr (Node (InspectDict 3) ''d'' (Ref 0) 1
            [Node (InspectSimpleType (SStr ''1'')) ''a'' (Ref 1) 0 []],
          \<lparr>max_items = 0, processed = Map.empty\<rparr>)
   \<and> map_option length (get_children (Node (InspectDict 3) ''d'' (Ref 0) 1
            [Node (InspectSimpleType (SStr ''1'')) ''a'' (Ref 1) 0 []])) = Some 1"
  by (simp add: InspectionManager_def inspect_factory.simps add_child.simps heap_list3_def
        heap_dict3_def been_seen_before_def get_max_items_def str_int_def digit_chr_def
        get_children_def enumerate_eq_zip)

section \<open>Partials\<close>

lemma partial_parameters_never_none:
  "(param_name, v) \<in> set (partial_parameters h bound_args bound_kwargs params) \<Longrightarrow> v \<noteq> None"
  by (induction params) (auto simp: Let_def split: if_splits)

text \<open>
  C7, on \<open>partial(f, 1)\<close> for \<open>def f(a, b)\<close>. The parameter \<open>b\<close> is not pre-bound: its
  value stays \<open>None\<close>, which is no instance of the whitelisted types, and becomes
  \<open>(complex)\<close>; the value text is \<open>a=1, b=(complex)\<close>, not \<open>a=1, b\<close>. The branch of
  \<open>get_format_value\<close> that renders a bare name is never reached.
\<close>

theorem partial_unbound_parameter_is_complex:
  "InspectionManager heap_partial ''p'' (Ref 0) 1 5 =
     Inr (Node (InspectPartial [(''a'', Some ''1''), (''b'', Some ''(complex)'')] ''f'')
            ''p'' (Ref 0) 1 [],
          \<lparr>max_items = 5, processed = Map.empty\<rparr>)
   \<and> get_format_title
         (Node (InspectPartial [(''a'', Some ''1''), (''b'', Some ''(complex)'')] ''f'')
            ''p'' (Ref 0) 1 []) = ''p(...) -> f''
   \<and> get_format_value
         (Node (InspectPartial [(''a'', Some ''1''), (''b'', Some ''(complex)'')] ''f'')
            ''p'' (Ref 0) 1 []) = ''a=1, b=(complex)''
   \<and> get_format_value
         (Node (InspectPartial [(''a'', Some ''1''), (''b'', Some ''(complex)'')] ''f'')
            ''p'' (Ref 0) 1 []) \<noteq> ''a=1, b''"
  by (simp add: InspectionManager_def inspect_factory.simps heap_partial_def
        str_int_def digit_chr_def enumerate_eq_zip)

section \<open>Attributes that raise\<close>

text \<open>
  C8, on an instance whose attribute \<open>bad\<close> raises. \<open>InspectClass.__init__\<close> reads
  attributes with \<open>getattr(obj, attr_name, None)\<close> and has no handler: an exception
  other than \<open>AttributeError\<close> leaves the inspection, and no node is built, neither for
  \<open>bad\<close> nor for its sibling \<open>good\<close>. An \<open>AttributeError\<close> is replaced by \<open>None\<close>, and
  the child of \<open>bad\<close> shows the text \<open>"None"\<close>, which does not tell the failure.
\<close>

theorem raising_attribute_leaves_the_inspection:
  "InspectionManager heap_raising ''o'' (Ref 0) 1 5 = Inl (GetterRaised ''boom'')
   \<and> InspectionManager heap_attr_error ''o'' (Ref 0) 1 5 =
       Inr (Node InspectClass ''o'' (Ref 0) 1
              [Node (InspectSimpleType (SStr ''None'')) ''bad'' PyNone 0 [],
               Node (InspectSimpleType (SStr ''1'')) ''good'' (Ref 1) 0 []],
            \<lparr>max_items = 5, processed = Map.empty\<rparr>)
   \<and> get_format_value (Node (InspectSimpleType (SStr ''None'')) ''bad'' PyNone 0 []) =
       quoted ''None''"
proof -
  have "py_lower ''bad'' = ''bad''"
    by code_simp
  then show ?thesis
    by (simp add: InspectionManager_def inspect_factory.simps add_child.simps heap_raising_def
          heap_attr_error_def been_seen_before_def str_int_def digit_chr_def)
qed

end
